theory Spec2Isabelle
  imports Complex_Main
begin

section \<open>Data model of \<open>hash_map.hpp\<close>\<close>

text \<open>
  The class template \<open>HashMap<KEY,T,thash>\<close> is embedded for \<open>KEY = std::string\<close>: the
  iterator and \<open>operator ==\<close> compare keys with the literal \<open>""\<close>, so the key type is a
  string type. The value type \<open>T\<close> stays a type variable \<open>'v\<close>.

  The header \<open>pair.hpp\<close> is not part of the sources. What a default-constructed
  \<open>T\<close> is (the second component of the entry of \<open>new LN()\<close>) is therefore a parameter
  \<open>dv\<close> of every function that allocates a trailer node, and the default-constructed
  \<open>Cursor\<close> is a parameter \<open>c0\<close> of the iterator's constructor. The first component of
  a default-constructed entry is the default-constructed \<open>std::string\<close>, the empty string.

  The loops over \<open>map[0]\<close> to \<open>map[bins - 1]\<close> are loops over a list, which has these
  elements on the well-formed tables of the section on well-formedness. An access
  \<open>map[i]\<close> at a computed index is checked: an index outside of the array is
  \<open>UndefinedBehaviour\<close>. \<open>BadArrayNewLength\<close> is what \<open>new LN*[bins]\<close> throws for a
  negative length.

  \<open>operator =\<close> replaces the array of a table and frees neither the old array nor its
  nodes, so that an \<open>LN*\<close> held by an iterator still addresses them. The field
  \<open>leaked\<close>, which is no member of the class, keeps these arrays, oldest first.

  Everything the code can raise is a value of \<open>error\<close>. \<open>UndefinedBehaviour\<close> stands for
  the places where the C++ dereferences \<open>nullptr\<close> or reads outside an array.

  An \<open>int\<close> has 32 bits: the results of \<open>++\<close>, \<open>--\<close>, \<open>*=\<close> and \<open>abs\<close> are reduced to
  the range from \<open>-2^31\<close> to \<open>2^31 - 1\<close> by \<open>wrap32\<close>, so that an overflow wraps around;
  \<open>/\<close> and \<open>%\<close> on \<open>int\<close> truncate towards zero (\<open>cpp_div\<close>, \<open>cpp_mod\<close>), and a division
  by zero is \<open>UndefinedBehaviour\<close>. \<open>double\<close> is embedded as \<open>real\<close>: the conversion of
  an \<open>int\<close> to \<open>double\<close> is exact and so is the comparison.
\<close>

datatype error =
    TemplateFunctionError
  | KeyError
  | ConcurrentModificationError
  | CannotEraseError
  | IteratorPositionIllegal
  | IteratorTypeError
  | ComparingDifferentIteratorsError
  | BadArrayNewLength
  | UndefinedBehaviour

type_synonym 'v Entry = "string \<times> 'v"

text \<open>
  A list node \<open>LN\<close> has a \<open>value\<close> and a \<open>next\<close> pointer. \<open>Trailer e\<close> is the node whose
  \<open>next\<close> is \<open>nullptr\<close>; \<open>Link e n\<close> is the node whose \<open>next\<close> points to the node \<open>n\<close>.
  A value of this type is a node together with everything reachable from it, that is the
  chain a bin of the table points to.
\<close>

datatype 'v LN = Trailer "'v Entry" | Link "'v Entry" "'v LN"

text \<open>
  An \<open>LN*\<close> into a table is the index of the bin and the number of \<open>next\<close> steps from the
  head of that bin's chain; \<open>nullptr\<close> is \<open>None\<close>.
\<close>

type_synonym LNptr = "nat \<times> nat"

text \<open>
  An \<open>LN*\<close> held by an iterator says in addition which array its bin belongs to: the
  arrays in \<open>leaked\<close> are numbered from 0, and the array the table uses has the next
  number.
\<close>

type_synonym LNref = "nat \<times> LNptr"

record 'v HashMap =
  hash :: "string \<Rightarrow> int"
  map_ht :: "'v LN list"
  load_threshold :: real
  bins :: int
  used :: int
  mod_count :: int
  leaked :: "'v LN list list"

record Iterator =
  current :: "int \<times> LNref option"
  expected_mod_count :: int
  can_erase :: bool

section \<open>Nodes and pointers\<close>

fun node_value :: "'v LN \<Rightarrow> 'v Entry" where
  "node_value (Trailer e) = e"
| "node_value (Link e n) = e"

fun node_at :: "'v LN \<Rightarrow> nat \<Rightarrow> 'v LN option" where
  "node_at c 0 = Some c"
| "node_at (Trailer e) (Suc p) = None"
| "node_at (Link e n) (Suc p) = node_at n p"

definition deref :: "'v HashMap \<Rightarrow> LNptr \<Rightarrow> 'v LN option" where
  "deref t p =
     (if fst p < length (map_ht t) then node_at (map_ht t ! fst p) (snd p) else None)"

text \<open>\<open>p->value.second = v\<close> for the node \<open>p\<close> steps into a chain.\<close>

fun set_second :: "'v LN \<Rightarrow> nat \<Rightarrow> 'v \<Rightarrow> 'v LN" where
  "set_second (Trailer e) 0 v = Trailer (fst e, v)"
| "set_second (Link e n) 0 v = Link (fst e, v) n"
| "set_second (Trailer e) (Suc p) v = Trailer e"
| "set_second (Link e n) (Suc p) v = Link e (set_second n p v)"

text \<open>
  \<open>to_delete = p->next; *p = *p->next; delete to_delete\<close> for the node \<open>p\<close> steps into a
  chain. On a node whose \<open>next\<close> is \<open>nullptr\<close> the assignment dereferences \<open>nullptr\<close>.
\<close>

fun unlink :: "'v LN \<Rightarrow> nat \<Rightarrow> 'v LN option" where
  "unlink (Trailer e) p = None"
| "unlink (Link e n) 0 = Some n"
| "unlink (Link e n) (Suc p) = map_option (Link e) (unlink n p)"

section \<open>Integer arithmetic of C++\<close>

definition cpp_div :: "int \<Rightarrow> int \<Rightarrow> int" where
  "cpp_div a b = sgn a * sgn b * (\<bar>a\<bar> div \<bar>b\<bar>)"

definition cpp_mod :: "int \<Rightarrow> int \<Rightarrow> int" where
  "cpp_mod a b = sgn a * (\<bar>a\<bar> mod \<bar>b\<bar>)"

definition wrap32 :: "int \<Rightarrow> int" where
  "wrap32 x = (x + 2147483648) mod 4294967296 - 2147483648"

definition cpp_abs :: "int \<Rightarrow> int" where
  "cpp_abs a = wrap32 \<bar>a\<bar>"

definition in_bounds :: "int \<Rightarrow> 'a list \<Rightarrow> bool" where
  "in_bounds i xs = (0 \<le> i \<and> i < int (length xs))"

section \<open>Construction\<close>

text \<open>
  The state a constructor leaves once the hash binding \<open>h\<close> is resolved: the default
  constructor and the constructor taking \<open>initial_bins\<close> (for \<open>initial_bins\<close> that is
  not negative; \<open>new\<close> fails on a negative length).
\<close>

definition HashMap_default :: "'v \<Rightarrow> real \<Rightarrow> (string \<Rightarrow> int) \<Rightarrow> 'v HashMap" where
  "HashMap_default dv the_load_threshold h =
     \<lparr>hash = h, map_ht = [Trailer ('''', dv)], load_threshold = the_load_threshold,
      bins = 1, used = 0, mod_count = 0, leaked = []\<rparr>"

definition HashMap_bins :: "'v \<Rightarrow> int \<Rightarrow> real \<Rightarrow> (string \<Rightarrow> int) \<Rightarrow> 'v HashMap" where
  "HashMap_bins dv initial_bins the_load_threshold h =
     \<lparr>hash = h, map_ht = replicate (nat initial_bins) (Trailer ('''', dv)),
      load_threshold = the_load_threshold, bins = initial_bins, used = 0, mod_count = 0,
      leaked = []\<rparr>"

section \<open>Queries and private helpers\<close>

text \<open>The bins \<open>map[0]\<close> to \<open>map[bins - 1]\<close> that every loop over the table visits.\<close>

definition bin_array :: "'v HashMap \<Rightarrow> 'v LN list" where
  "bin_array t = take (nat (bins t)) (map_ht t)"

definition empty :: "'v HashMap \<Rightarrow> bool" where
  "empty t = (used t = 0)"

definition size_ht :: "'v HashMap \<Rightarrow> int" where
  "size_ht t = used t"

definition hash_compress :: "'v HashMap \<Rightarrow> string \<Rightarrow> int" where
  "hash_compress t key = cpp_mod (cpp_abs (hash t key)) (bins t)"

text \<open>\<open>has_key\<close>: the inner loop runs while \<open>j->next != nullptr\<close>.\<close>

fun has_key_chain :: "'v LN \<Rightarrow> string \<Rightarrow> bool" where
  "has_key_chain (Trailer e) key = False"
| "has_key_chain (Link e n) key = (if fst e = key then True else has_key_chain n key)"

fun has_key_bins :: "'v LN list \<Rightarrow> string \<Rightarrow> bool" where
  "has_key_bins [] key = False"
| "has_key_bins (c # cs) key = (if has_key_chain c key then True else has_key_bins cs key)"

definition has_key :: "'v HashMap \<Rightarrow> string \<Rightarrow> bool" where
  "has_key t key = has_key_bins (bin_array t) key"

text \<open>\<open>find_key\<close>: the inner loop runs while \<open>j != nullptr\<close>.\<close>

fun find_key_chain :: "'v LN \<Rightarrow> string \<Rightarrow> nat option" where
  "find_key_chain (Trailer e) key = (if fst e = key then Some 0 else None)"
| "find_key_chain (Link e n) key =
     (if fst e = key then Some 0 else map_option Suc (find_key_chain n key))"

fun find_key_bins :: "'v LN list \<Rightarrow> nat \<Rightarrow> string \<Rightarrow> LNptr option" where
  "find_key_bins [] i key = None"
| "find_key_bins (c # cs) i key =
     (case find_key_chain c key of
        Some p \<Rightarrow> Some (i, p)
      | None \<Rightarrow> find_key_bins cs (Suc i) key)"

definition find_key :: "'v HashMap \<Rightarrow> string \<Rightarrow> LNptr option" where
  "find_key t key = find_key_bins (bin_array t) 0 key"

fun copy_list :: "'v \<Rightarrow> 'v LN \<Rightarrow> 'v LN" where
  "copy_list dv (Trailer e) = Trailer ('''', dv)"
| "copy_list dv (Link e n) = Link e (copy_list dv n)"

text \<open>\<open>copy_hash_table\<close> writes the copies into the \<open>map\<close> of the table it is called on.\<close>

definition copy_hash_table :: "'v \<Rightarrow> 'v HashMap \<Rightarrow> 'v LN list \<Rightarrow> int \<Rightarrow> 'v HashMap" where
  "copy_hash_table dv t ht b =
     t\<lparr>map_ht := foldl (\<lambda>m i. m[i := copy_list dv (ht ! i)]) (map_ht t) [0..<nat b]\<rparr>"

text \<open>
  \<open>ensure_load_threshold\<close>. \<open>insert_front\<close> is the body of its inner loop,
  \<open>rehouse_chain\<close> that loop, which runs while \<open>j != nullptr\<close>, and \<open>rehouse_bins\<close> the
  loop over the bins of the old array.
\<close>

definition insert_front :: "'v HashMap \<Rightarrow> 'v Entry \<Rightarrow> error + 'v HashMap" where
  "insert_front t e =
     (if bins t = 0 then Inl UndefinedBehaviour
      else if in_bounds (hash_compress t (fst e)) (map_ht t)
      then Inr (t\<lparr>map_ht := (map_ht t)[nat (hash_compress t (fst e)) :=
                  Link (fst e, snd e) (map_ht t ! nat (hash_compress t (fst e)))]\<rparr>)
      else Inl UndefinedBehaviour)"

fun rehouse_chain :: "'v HashMap \<Rightarrow> 'v LN \<Rightarrow> error + 'v HashMap" where
  "rehouse_chain t (Trailer e) = insert_front t e"
| "rehouse_chain t (Link e n) =
     (case insert_front t e of
        Inl err \<Rightarrow> Inl err
      | Inr t1 \<Rightarrow> rehouse_chain t1 n)"

fun rehouse_bins :: "'v HashMap \<Rightarrow> 'v LN list \<Rightarrow> error + 'v HashMap" where
  "rehouse_bins t [] = Inr t"
| "rehouse_bins t (c # cs) =
     (case rehouse_chain t c of
        Inl err \<Rightarrow> Inl err
      | Inr t1 \<Rightarrow> rehouse_bins t1 cs)"

definition ensure_load_threshold :: "'v \<Rightarrow> 'v HashMap \<Rightarrow> int \<Rightarrow> error + 'v HashMap" where
  "ensure_load_threshold dv t new_used =
     (if bins t = 0 then Inl UndefinedBehaviour
      else if real_of_int (cpp_div new_used (bins t)) \<le> load_threshold t then Inr t
      else
        (let old_map = map_ht t;
             t1 = t\<lparr>bins := wrap32 (bins t * 2)\<rparr>
         in if bins t1 < 0 then Inl BadArrayNewLength
            else rehouse_bins
                   (t1\<lparr>map_ht := replicate (nat (bins t1)) (Trailer ('''', dv))\<rparr>)
                   (take (nat (cpp_div (bins t1) 2)) old_map)))"

section \<open>Commands\<close>

definition store_second :: "'v HashMap \<Rightarrow> LNptr \<Rightarrow> 'v \<Rightarrow> 'v HashMap" where
  "store_second t p v =
     t\<lparr>map_ht := (map_ht t)[fst p := set_second (map_ht t ! fst p) (snd p) v]\<rparr>"

definition put :: "'v \<Rightarrow> 'v HashMap \<Rightarrow> string \<Rightarrow> 'v \<Rightarrow> error + ('v \<times> 'v HashMap)" where
  "put dv t key v =
     (if bins t = 0 then Inl UndefinedBehaviour
      else
        (let hash_index = hash_compress t key in
         if has_key t key then
           (case find_key t key of
              None \<Rightarrow> Inl UndefinedBehaviour
            | Some found_key \<Rightarrow>
                (case deref t found_key of
                   None \<Rightarrow> Inl UndefinedBehaviour
                 | Some n \<Rightarrow> Inr (snd (node_value n), store_second t found_key v)))
         else
           (case ensure_load_threshold dv (t\<lparr>used := wrap32 (used t + 1)\<rparr>)
                   (wrap32 (used t + 1)) of
              Inl err \<Rightarrow> Inl err
            | Inr t1 \<Rightarrow>
                if in_bounds hash_index (map_ht t1) then
                  (let t2 = t1\<lparr>map_ht := (map_ht t1)[nat hash_index :=
                                Link (key, v) (map_ht t1 ! nat hash_index)]\<rparr>;
                       t3 = t2\<lparr>mod_count := wrap32 (mod_count t2 + 1)\<rparr>
                   in Inr (snd (node_value (map_ht t3 ! nat hash_index)), t3))
                else Inl UndefinedBehaviour)))"

definition erase :: "'v HashMap \<Rightarrow> string \<Rightarrow> error + ('v \<times> 'v HashMap)" where
  "erase t key =
     (case find_key t key of
        None \<Rightarrow> Inl KeyError
      | Some cur \<Rightarrow>
          (case deref t cur of
             None \<Rightarrow> Inl UndefinedBehaviour
           | Some n \<Rightarrow>
               (case unlink (map_ht t ! fst cur) (snd cur) of
                  None \<Rightarrow> Inl UndefinedBehaviour
                | Some c \<Rightarrow>
                    Inr (snd (node_value n),
                         t\<lparr>map_ht := (map_ht t)[fst cur := c],
                           used := wrap32 (used t - 1),
                           mod_count := wrap32 (mod_count t + 1)\<rparr>))))"

fun clear_chain :: "'v LN \<Rightarrow> 'v LN" where
  "clear_chain (Trailer e) = Trailer e"
| "clear_chain (Link e n) = clear_chain n"

definition clear :: "'v HashMap \<Rightarrow> 'v HashMap" where
  "clear t =
     t\<lparr>map_ht := map clear_chain (bin_array t) @ drop (nat (bins t)) (map_ht t),
       used := 0,
       mod_count := wrap32 (mod_count t + 1)\<rparr>"

text \<open>\<open>put_all\<close> over the entries an iterable produces, given as a list.\<close>

fun put_all_loop ::
  "'v \<Rightarrow> 'v HashMap \<Rightarrow> int \<Rightarrow> 'v Entry list \<Rightarrow> error + (int \<times> 'v HashMap)" where
  "put_all_loop dv t count [] = Inr (count, t)"
| "put_all_loop dv t count (m_entry # i) =
     (case put dv t (fst m_entry) (snd m_entry) of
        Inl err \<Rightarrow> Inl err
      | Inr r \<Rightarrow> put_all_loop dv (snd r) (wrap32 (count + 1)) i)"

definition put_all :: "'v \<Rightarrow> 'v HashMap \<Rightarrow> 'v Entry list \<Rightarrow> error + (int \<times> 'v HashMap)" where
  "put_all dv t i = put_all_loop dv t 0 i"

section \<open>Operators\<close>

text \<open>The \<open>const\<close> form of \<open>operator []\<close>.\<close>

definition index_const :: "'v HashMap \<Rightarrow> string \<Rightarrow> error + 'v" where
  "index_const t key =
     (case find_key t key of
        None \<Rightarrow> Inl KeyError
      | Some cur \<Rightarrow>
          (case deref t cur of
             None \<Rightarrow> Inl UndefinedBehaviour
           | Some n \<Rightarrow> Inr (snd (node_value n))))"

text \<open>
  \<open>operator =\<close>. Tables are values here, so the test \<open>this == &rhs\<close> is the
  argument \<open>same_object\<close>. The array that \<open>map\<close> pointed to is not freed: it goes to
  \<open>leaked\<close>.
\<close>

definition assign :: "bool \<Rightarrow> 'v \<Rightarrow> 'v HashMap \<Rightarrow> 'v HashMap \<Rightarrow> 'v HashMap" where
  "assign same_object dv t rhs =
     (if same_object then t
      else
        (let t1 = t\<lparr>load_threshold := load_threshold rhs, bins := bins rhs,
                    used := used rhs, hash := hash rhs\<rparr>;
             t2 = t1\<lparr>leaked := leaked t @ [map_ht t],
                     map_ht := replicate (nat (bins t1)) (Trailer ('''', dv))\<rparr>
         in copy_hash_table dv t2 (map_ht rhs) (bins rhs)))"

text \<open>
  \<open>operator ==\<close>. \<open>eq_chain\<close> is the inner loop: \<open>Inr False\<close> is its \<open>return false\<close>,
  \<open>Inr True\<close> its end (by \<open>break\<close> or by reaching the trailer), \<open>Inl\<close> what \<open>rhs[...]\<close>
  raised.
\<close>

fun eq_chain :: "'v LN \<Rightarrow> 'v HashMap \<Rightarrow> error + bool" where
  "eq_chain (Trailer e) rhs = Inr True"
| "eq_chain (Link e n) rhs =
     (if fst e = '''' then Inr True
      else
        (case index_const rhs (fst e) of
           Inl err \<Rightarrow> Inl err
         | Inr w \<Rightarrow> if snd e \<noteq> w then Inr False else eq_chain n rhs))"

fun eq_bins :: "'v LN list \<Rightarrow> 'v HashMap \<Rightarrow> error + bool" where
  "eq_bins [] rhs = Inr True"
| "eq_bins (c # cs) rhs =
     (case eq_chain c rhs of
        Inl err \<Rightarrow> Inl err
      | Inr b \<Rightarrow> if b then eq_bins cs rhs else Inr False)"

definition operator_eq :: "bool \<Rightarrow> 'v HashMap \<Rightarrow> 'v HashMap \<Rightarrow> error + bool" where
  "operator_eq same_object t rhs =
     (if same_object then Inr True
      else if used t \<noteq> used rhs then Inr False
      else eq_bins (bin_array t) rhs)"

section \<open>Iterator\<close>

text \<open>
  An iterator reaches its table through \<open>ref_map\<close>; here every operation takes the
  table's current state as an argument. \<open>node_of\<close> reads the node that an \<open>LN*\<close> of an
  iterator addresses: a node of the array the table uses, or of an array that
  \<open>operator =\<close> replaced. Within an array the pointer addresses the node the C++
  pointer addresses as long as no node was allocated or freed in front of it in its chain
  since the pointer was taken; storing a value into a node and unlinking the cursor's own
  node keep that.
\<close>

definition array_id :: "'v HashMap \<Rightarrow> nat" where
  "array_id t = length (leaked t)"

definition array_of :: "'v HashMap \<Rightarrow> nat \<Rightarrow> 'v LN list option" where
  "array_of t a =
     (if a = array_id t then Some (map_ht t)
      else if a < array_id t then Some (leaked t ! a)
      else None)"

definition node_of :: "'v HashMap \<Rightarrow> LNref \<Rightarrow> 'v LN option" where
  "node_of t r =
     (case array_of t (fst r) of
        None \<Rightarrow> None
      | Some ht \<Rightarrow>
          if fst (snd r) < length ht then node_at (ht ! fst (snd r)) (snd (snd r)) else None)"

fun first_live :: "'v LN list \<Rightarrow> nat \<Rightarrow> nat option" where
  "first_live [] i = None"
| "first_live (Trailer e # cs) i = first_live cs (Suc i)"
| "first_live (Link e n # cs) i = Some i"

definition Iterator_ctor :: "int \<times> LNref option \<Rightarrow> 'v HashMap \<Rightarrow> bool \<Rightarrow> Iterator" where
  "Iterator_ctor c0 t from_begin =
     \<lparr>current =
        (if \<not> from_begin then (- 1, None)
         else if empty t then (- 1, None)
         else
           (case first_live (bin_array t) 0 of
              Some i \<Rightarrow> (int i, Some (array_id t, (i, 0)))
            | None \<Rightarrow> c0)),
      expected_mod_count = mod_count t,
      can_erase = True\<rparr>"

definition begin_it :: "int \<times> LNref option \<Rightarrow> 'v HashMap \<Rightarrow> Iterator" where
  "begin_it c0 t = Iterator_ctor c0 t True"

definition end_it :: "int \<times> LNref option \<Rightarrow> 'v HashMap \<Rightarrow> Iterator" where
  "end_it c0 t = Iterator_ctor c0 t False"

text \<open>
  The two loops of \<open>advance_cursors\<close>, and the cursor they leave when they start at
  bin \<open>i\<close>.
\<close>

fun scan_chain :: "'v LN \<Rightarrow> nat \<Rightarrow> nat option" where
  "scan_chain (Trailer e) p = None"
| "scan_chain (Link e n) p = (if fst e \<noteq> '''' then Some p else scan_chain n (Suc p))"

fun scan_bins :: "'v LN list \<Rightarrow> nat \<Rightarrow> LNptr option" where
  "scan_bins [] i = None"
| "scan_bins (c # cs) i =
     (case scan_chain c 0 of
        Some p \<Rightarrow> Some (i, p)
      | None \<Rightarrow> scan_bins cs (Suc i))"

definition scan_from :: "'v HashMap \<Rightarrow> nat \<Rightarrow> int \<times> LNref option" where
  "scan_from t i =
     (case scan_bins (drop i (bin_array t)) i of
        Some q \<Rightarrow> (int (fst q), Some (array_id t, q))
      | None \<Rightarrow> (- 1, None))"

definition advance_cursors :: "'v HashMap \<Rightarrow> Iterator \<Rightarrow> error + Iterator" where
  "advance_cursors t it =
     (case snd (current it) of
        None \<Rightarrow> Inl UndefinedBehaviour
      | Some r \<Rightarrow>
          (case node_of t r of
             None \<Rightarrow> Inl UndefinedBehaviour
           | Some (Trailer e) \<Rightarrow> Inl UndefinedBehaviour
           | Some (Link e n) \<Rightarrow>
               if fst (node_value n) \<noteq> ''''
               then Inr (it\<lparr>current :=
                      (fst (current it), Some (fst r, (fst (snd r), Suc (snd (snd r)))))\<rparr>)
               else if fst (current it) + 1 < 0 then Inl UndefinedBehaviour
               else Inr (it\<lparr>current := scan_from t (nat (fst (current it) + 1))\<rparr>)))"

text \<open>Prefix and postfix \<open>operator ++\<close>; the postfix form also returns the copy.\<close>

definition pre_increment :: "'v HashMap \<Rightarrow> Iterator \<Rightarrow> error + Iterator" where
  "pre_increment t it =
     (if expected_mod_count it \<noteq> mod_count t then Inl ConcurrentModificationError
      else if snd (current it) = None then Inr it
      else if can_erase it then advance_cursors t it
      else Inr (it\<lparr>can_erase := True\<rparr>))"

definition post_increment :: "'v HashMap \<Rightarrow> Iterator \<Rightarrow> error + (Iterator \<times> Iterator)" where
  "post_increment t it =
     (if expected_mod_count it \<noteq> mod_count t then Inl ConcurrentModificationError
      else if snd (current it) = None then Inr (it, it)
      else if can_erase it then
        (case advance_cursors t it of
           Inl err \<Rightarrow> Inl err
         | Inr it1 \<Rightarrow> Inr (it, it1))
      else Inr (it, it\<lparr>can_erase := True\<rparr>))"

text \<open>\<open>operator *\<close>.\<close>

definition dereference :: "'v HashMap \<Rightarrow> Iterator \<Rightarrow> error + 'v Entry" where
  "dereference t it =
     (if expected_mod_count it \<noteq> mod_count t then Inl ConcurrentModificationError
      else if \<not> can_erase it then Inl IteratorPositionIllegal
      else if snd (current it) = None then Inl IteratorPositionIllegal
      else
        (case node_of t (the (snd (current it))) of
           None \<Rightarrow> Inl UndefinedBehaviour
         | Some n \<Rightarrow> Inr (node_value n)))"

text \<open>
  \<open>operator ->\<close>. Its test is written \<open>current->second == nullptr\<close> and is read as
  \<open>current.second == nullptr\<close>, the test of \<open>operator *\<close>; it returns the address of
  the entry that \<open>operator *\<close> returns.
\<close>

definition arrow :: "'v HashMap \<Rightarrow> Iterator \<Rightarrow> error + 'v Entry" where
  "arrow t it =
     (if expected_mod_count it \<noteq> mod_count t then Inl ConcurrentModificationError
      else if \<not> can_erase it then Inl IteratorPositionIllegal
      else if snd (current it) = None then Inl IteratorPositionIllegal
      else
        (case node_of t (the (snd (current it))) of
           None \<Rightarrow> Inl UndefinedBehaviour
         | Some n \<Rightarrow> Inr (node_value n)))"

text \<open>
  \<open>Iterator::erase\<close>. \<open>current.second->next->next == nullptr\<close> holds when the node after
  the cursor's node is a trailer.
\<close>

definition erase_it ::
  "'v HashMap \<Rightarrow> Iterator \<Rightarrow> error + ('v Entry \<times> Iterator \<times> 'v HashMap)" where
  "erase_it t it =
     (if expected_mod_count it \<noteq> mod_count t then Inl ConcurrentModificationError
      else if \<not> can_erase it then Inl CannotEraseError
      else
        (case snd (current it) of
           None \<Rightarrow> Inl CannotEraseError
         | Some r \<Rightarrow>
             (case node_of t r of
                None \<Rightarrow> Inl UndefinedBehaviour
              | Some (Trailer e) \<Rightarrow> Inl UndefinedBehaviour
              | Some (Link e n) \<Rightarrow>
                  (case (case n of
                           Trailer e' \<Rightarrow> advance_cursors t (it\<lparr>can_erase := False\<rparr>)
                         | Link e' n' \<Rightarrow> Inr (it\<lparr>can_erase := False\<rparr>)) of
                     Inl err \<Rightarrow> Inl err
                   | Inr it1 \<Rightarrow>
                       (case erase t (fst e) of
                          Inl err \<Rightarrow> Inl err
                        | Inr r' \<Rightarrow>
                            Inr (e, it1\<lparr>expected_mod_count := mod_count (snd r')\<rparr>,
                                 snd r'))))))"

text \<open>
  \<open>operator ==\<close> and \<open>operator !=\<close> of iterators; \<open>same_map\<close> is the outcome of the
  test \<open>ref_map == rhs.ref_map\<close>. The \<open>dynamic_cast\<close> of the address of a reference to
  its own type does not yield null, so \<open>IteratorTypeError\<close> is not raised.
\<close>

definition eq_it :: "bool \<Rightarrow> 'v HashMap \<Rightarrow> Iterator \<Rightarrow> Iterator \<Rightarrow> error + bool" where
  "eq_it same_map t it rhs =
     (if expected_mod_count it \<noteq> mod_count t then Inl ConcurrentModificationError
      else if \<not> same_map then Inl ComparingDifferentIteratorsError
      else Inr (snd (current it) = snd (current rhs)))"

definition neq_it :: "bool \<Rightarrow> 'v HashMap \<Rightarrow> Iterator \<Rightarrow> Iterator \<Rightarrow> error + bool" where
  "neq_it same_map t it rhs =
     (if expected_mod_count it \<noteq> mod_count t then Inl ConcurrentModificationError
      else if \<not> same_map then Inl ComparingDifferentIteratorsError
      else Inr (snd (current it) \<noteq> snd (current rhs)))"

text \<open>
  \<open>HashMap::str\<close> and \<open>Iterator::str\<close>, which \<open>operator <<\<close> of an iterator returns as
  it is. Neither has a statement that throws. \<open>out_T\<close> is what the stream writes for a
  value of \<open>T\<close>; the stream writes an \<open>int\<close> in decimal digits (\<open>out_int\<close>) and a
  \<open>bool\<close> as 1 or 0.
\<close>

function out_nat :: "nat \<Rightarrow> string" where
  "out_nat n =
     (if n < 10 then [''0123456789'' ! n]
      else out_nat (n div 10) @ [''0123456789'' ! (n mod 10)])"
  by pat_completeness auto
termination
  by (relation "measure id") auto

definition out_int :: "int \<Rightarrow> string" where
  "out_int i = (if i < 0 then CHR ''-'' # out_nat (nat (- i)) else out_nat (nat i))"

fun str_chain :: "('v \<Rightarrow> string) \<Rightarrow> 'v LN \<Rightarrow> string" where
  "str_chain out_T (Trailer e) = ''''"
| "str_chain out_T (Link e n) = fst e @ ''->'' @ out_T (snd e) @ str_chain out_T n"

definition str_ht :: "('v \<Rightarrow> string) \<Rightarrow> 'v HashMap \<Rightarrow> string" where
  "str_ht out_T t = concat (map (str_chain out_T) (bin_array t))"

definition str_it :: "('v \<Rightarrow> string) \<Rightarrow> 'v HashMap \<Rightarrow> Iterator \<Rightarrow> error + string" where
  "str_it out_T t it =
     Inr (str_ht out_T t @ ''(expected_mod_count='' @ out_int (expected_mod_count it)
          @ '',can_erase='' @ (if can_erase it then ''1'' else ''0'') @ '')'')"

definition insertion_it :: "('v \<Rightarrow> string) \<Rightarrow> 'v HashMap \<Rightarrow> Iterator \<Rightarrow> error + string" where
  "insertion_it out_T t it = str_it out_T t it"

text \<open>
  The traversal \<open>for (i = m.begin(); i != m.end(); ++i) ... *i ...\<close>, collecting the
  entries it dereferences. The first argument bounds the number of rounds; \<open>None\<close> means
  the bound was reached.
\<close>

fun traverse ::
  "nat \<Rightarrow> int \<times> LNref option \<Rightarrow> 'v HashMap \<Rightarrow> Iterator \<Rightarrow> (error + 'v Entry list) option" where
  "traverse 0 c0 t it = None"
| "traverse (Suc k) c0 t it =
     (case neq_it True t it (end_it c0 t) of
        Inl err \<Rightarrow> Some (Inl err)
      | Inr b \<Rightarrow>
          if \<not> b then Some (Inr [])
          else
            (case dereference t it of
               Inl err \<Rightarrow> Some (Inl err)
             | Inr x \<Rightarrow>
                 (case pre_increment t it of
                    Inl err \<Rightarrow> Some (Inl err)
                  | Inr it1 \<Rightarrow>
                      (case traverse k c0 t it1 of
                         None \<Rightarrow> None
                       | Some (Inl err) \<Rightarrow> Some (Inl err)
                       | Some (Inr xs) \<Rightarrow> Some (Inr (x # xs))))))"

section \<open>Well-formed tables and the entries of a chain\<close>

text \<open>
  A table is well formed when \<open>bins\<close> is at least 1 (the declaration of \<open>bins\<close> asks for
  this), \<open>map\<close> has \<open>bins\<close> elements, and \<open>bins\<close>, \<open>used\<close> and \<open>mod_count\<close> are values
  of an \<open>int\<close>. \<open>entries\<close> lists the entries of the nodes of a chain whose \<open>next\<close> is not
  \<open>nullptr\<close>, from the head on.
\<close>

definition int32 :: "int \<Rightarrow> bool" where
  "int32 x = (- 2147483648 \<le> x \<and> x \<le> 2147483647)"

definition wf :: "'v HashMap \<Rightarrow> bool" where
  "wf t = (1 \<le> bins t \<and> int32 (bins t) \<and> int32 (used t) \<and> int32 (mod_count t)
           \<and> length (map_ht t) = nat (bins t))"

text \<open>\<open>same_shape\<close>: two tables agree in \<open>bins\<close>, \<open>used\<close>, \<open>mod_count\<close> and the length of \<open>map\<close>.\<close>

definition same_shape :: "'v HashMap \<Rightarrow> 'v HashMap \<Rightarrow> bool" where
  "same_shape t t' =
     (bins t' = bins t \<and> used t' = used t \<and> mod_count t' = mod_count t
      \<and> length (map_ht t') = length (map_ht t))"

fun entries :: "'v LN \<Rightarrow> 'v Entry list" where
  "entries (Trailer e) = []"
| "entries (Link e n) = e # entries n"

text \<open>
  \<open>keys_of\<close> lists the keys of all nodes of a chain, the trailer node included; two
  tables with \<open>same_keys\<close> have the same bins, the same chain lengths and the same key
  in every node, also in the arrays that \<open>operator =\<close> replaced, and differ at most in
  the values stored.
\<close>

fun keys_of :: "'v LN \<Rightarrow> string list" where
  "keys_of (Trailer e) = [fst e]"
| "keys_of (Link e n) = fst e # keys_of n"

definition same_keys :: "'v HashMap \<Rightarrow> 'v HashMap \<Rightarrow> bool" where
  "same_keys t t' =
     (bins t' = bins t \<and> map keys_of (map_ht t') = map keys_of (map_ht t)
      \<and> leaked t' = leaked t)"

text \<open>
  \<open>trailer_key\<close> is the key in the trailer node of a chain; it is the empty string in
  every chain of a table with \<open>trailers_empty\<close>.
\<close>

fun trailer_key :: "'v LN \<Rightarrow> string" where
  "trailer_key (Trailer e) = fst e"
| "trailer_key (Link e n) = trailer_key n"

definition trailers_empty :: "'v HashMap \<Rightarrow> bool" where
  "trailers_empty t = list_all (\<lambda>c. trailer_key c = '''') (map_ht t)"

text \<open>
  The operations of the iterator that compare \<open>expected_mod_count\<close> with \<open>mod_count\<close>:
  both forms of \<open>operator ++\<close>, \<open>operator *\<close>, \<open>operator ->\<close>, \<open>erase\<close>, \<open>operator ==\<close>
  and \<open>operator !=\<close> (with any other iterator \<open>rhs\<close> as right operand).
\<close>

definition checked_operations_raise_CME ::
  "'v HashMap \<Rightarrow> Iterator \<Rightarrow> bool \<Rightarrow> Iterator \<Rightarrow> bool" where
  "checked_operations_raise_CME t it same_map rhs =
     (pre_increment t it = Inl ConcurrentModificationError
      \<and> post_increment t it = Inl ConcurrentModificationError
      \<and> dereference t it = Inl ConcurrentModificationError
      \<and> arrow t it = Inl ConcurrentModificationError
      \<and> erase_it t it = Inl ConcurrentModificationError
      \<and> eq_it same_map t it rhs = Inl ConcurrentModificationError
      \<and> neq_it same_map t it rhs = Inl ConcurrentModificationError)"

definition no_operation_raises_CME ::
  "('v \<Rightarrow> string) \<Rightarrow> 'v HashMap \<Rightarrow> Iterator \<Rightarrow> bool \<Rightarrow> Iterator \<Rightarrow> bool" where
  "no_operation_raises_CME out_T t it same_map rhs =
     (pre_increment t it \<noteq> Inl ConcurrentModificationError
      \<and> post_increment t it \<noteq> Inl ConcurrentModificationError
      \<and> dereference t it \<noteq> Inl ConcurrentModificationError
      \<and> arrow t it \<noteq> Inl ConcurrentModificationError
      \<and> erase_it t it \<noteq> Inl ConcurrentModificationError
      \<and> eq_it same_map t it rhs \<noteq> Inl ConcurrentModificationError
      \<and> neq_it same_map t it rhs \<noteq> Inl ConcurrentModificationError
      \<and> str_it out_T t it \<noteq> Inl ConcurrentModificationError
      \<and> insertion_it out_T t it \<noteq> Inl ConcurrentModificationError)"

text \<open>
  \<open>Iterator::str\<close> and \<open>operator <<\<close> of an iterator make no such comparison; they
  return a rendering.
\<close>

definition unchecked_operations_return ::
  "('v \<Rightarrow> string) \<Rightarrow> 'v HashMap \<Rightarrow> Iterator \<Rightarrow> bool" where
  "unchecked_operations_return out_T t it =
     (\<exists>s. str_it out_T t it = Inr s \<and> insertion_it out_T t it = Inr s)"



section \<open>Concrete tables\<close>

text \<open>
  A hash function a caller can supply, and the states that the evaluated calls below
  reach from a constructor.
\<close>

definition length_hash :: "string \<Rightarrow> int" where
  "length_hash key = int (length key)"

definition table_new :: "int HashMap" where
  "table_new = HashMap_default 0 1 length_hash"

definition table_a :: "int HashMap" where
  "table_a =
     \<lparr>hash = length_hash, map_ht = [Link (''a'', 1) (Trailer ('''', 0))],
      load_threshold = 1, bins = 1, used = 1, mod_count = 1, leaked = []\<rparr>"

definition table_a_b :: "int HashMap" where
  "table_a_b =
     \<lparr>hash = length_hash,
      map_ht = [Link (''b'', 2) (Link ('''', 0) (Trailer ('''', 0))),
                Link (''a'', 1) (Trailer ('''', 0))],
      load_threshold = 1, bins = 2, used = 2, mod_count = 2, leaked = []\<rparr>"

definition table_aa_bb :: "int \<Rightarrow> int HashMap" where
  "table_aa_bb x =
     \<lparr>hash = length_hash,
      map_ht = [Link (''bb'', 2) (Link ('''', 0) (Link (''aa'', x) (Trailer ('''', 0)))),
                Trailer ('''', 0)],
      load_threshold = 1, bins = 2, used = 2, mod_count = 2, leaked = []\<rparr>"

definition table_empty_key :: "int \<Rightarrow> int HashMap" where
  "table_empty_key x =
     \<lparr>hash = (\<lambda>key. 1),
      map_ht = [Trailer ('''', x), Link ('''', 1) (Trailer ('''', 0))],
      load_threshold = 1, bins = 2, used = 1, mod_count = 1, leaked = []\<rparr>"


definition table_half :: "int HashMap" where
  "table_half =
     \<lparr>hash = length_hash,
      map_ht = [Trailer ('''', 0), Link (''a'', 1) (Trailer ('''', 0)),
                Link (''bb'', 2) (Trailer ('''', 0)), Trailer ('''', 0)],
      load_threshold = 1 / 2, bins = 4, used = 2, mod_count = 2, leaked = []\<rparr>"

section \<open>Evaluation of the operations\<close>

lemmas table_ops =
  put_all_def put_def has_key_def find_key_def bin_array_def hash_compress_def
  cpp_mod_def cpp_div_def cpp_abs_def wrap32_def in_bounds_def
  ensure_load_threshold_def insert_front_def deref_def
  store_second_def HashMap_default_def HashMap_bins_def length_hash_def Let_def
  erase_def index_const_def
  eval_nat_numeral

lemmas iterator_ops =
  begin_it_def end_it_def Iterator_ctor_def empty_def neq_it_def dereference_def
  pre_increment_def advance_cursors_def scan_from_def bin_array_def node_of_def
  array_of_def array_id_def eval_nat_numeral

text \<open>
  C1 (\<open>put\<close> of a present key replaces the stored value and returns the previous one):
  a table with two bins whose hash function sends every key to bin 1 receives
  \<open>put("", 1)\<close> and then \<open>put("", 2)\<close>. The second call finds the key present, but
  \<open>find_key\<close> stops at the trailer node of bin 0, whose key is the empty string too: the
  call returns that node's value 0, not the previous value 1, and writes 2 into the
  trailer node while the node of bin 1 keeps 1.
\<close>

theorem put_present_empty_key_hits_trailer:
  "put 0 (HashMap_bins 0 2 1 (\<lambda>key. 1)) '''' 1 = Inr (1, table_empty_key 0)
   \<and> has_key (table_empty_key 0) ''''
   \<and> put 0 (table_empty_key 0) '''' 2 = Inr (0, table_empty_key 2)"
  by (simp add: table_ops table_empty_key_def)

text \<open>
  C2 (\<open>erase\<close> of an absent key fails with \<open>KeyError\<close>): on a freshly constructed table
  the empty string is not a key, yet \<open>find_key\<close> returns the trailer node of bin 0 and
  \<open>erase\<close> then reads through that node's \<open>next\<close>, which is \<open>nullptr\<close>. Another absent
  key gets the \<open>KeyError\<close>.
\<close>

theorem erase_absent_empty_key_no_KeyError:
  "\<not> has_key (HashMap_default (0::int) 1 length_hash) ''''
   \<and> erase (HashMap_default (0::int) 1 length_hash) '''' = Inl UndefinedBehaviour
   \<and> erase (HashMap_default (0::int) 1 length_hash) ''x'' = Inl KeyError"
  by (simp add: table_ops)

text \<open>
  C3 (a resize keeps exactly the entries that were put, and adds none): \<open>put("a", 1)\<close>
  and \<open>put("b", 2)\<close> on a default-constructed table with threshold 1 double the bins
  once. The loop that rehouses the old chain also rehouses its trailer node, so the
  resized table holds a third entry with the empty key, which \<open>has_key\<close> reports, while
  \<open>used\<close> is 2.
\<close>

theorem resize_rehouses_trailer:
  "put_all 0 (HashMap_default 0 1 length_hash) [(''a'', 1), (''b'', 2)] = Inr (2, table_a_b)
   \<and> used table_a_b = 2
   \<and> concat (map entries (bin_array table_a_b)) = [(''b'', 2), ('''', 0), (''a'', 1)]
   \<and> has_key table_a_b ''''"
  by (simp add: table_ops table_a_b_def)

text \<open>
  C4 (a traversal from \<open>begin()\<close> to \<open>end()\<close> yields \<open>used\<close> entries): after
  \<open>put("aa", 1)\<close> and \<open>put("bb", 2)\<close> on a default-constructed table, \<open>used\<close> is 2 and
  the traversal yields the single entry \<open>("bb", 2)\<close>: \<open>advance_cursors\<close> leaves the chain
  at the rehoused trailer entry, before it reaches \<open>"aa"\<close>.
\<close>

theorem traversal_misses_entry:
  "put_all 0 (HashMap_default 0 1 length_hash) [(''aa'', 1), (''bb'', 2)]
     = Inr (2, table_aa_bb 1)
   \<and> used (table_aa_bb 1) = 2
   \<and> index_const (table_aa_bb 1) ''aa'' = Inr 1
   \<and> traverse 3 c0 (table_aa_bb 1) (begin_it c0 (table_aa_bb 1)) = Some (Inr [(''bb'', 2)])"
  by (simp add: table_ops iterator_ops table_aa_bb_def)

text \<open>
  C6 (\<open>A == B\<close> is true only if every entry of \<open>A\<close> has the same value in \<open>B\<close>): two
  tables built by the same calls except for the value put for \<open>"aa"\<close>, 1 in one and 9
  in the other, compare equal, because the loop of \<open>operator ==\<close> leaves a chain at the
  first empty key.
\<close>

theorem operator_eq_true_on_different_values:
  "put_all 0 (HashMap_default 0 1 length_hash) [(''aa'', 1), (''bb'', 2)]
     = Inr (2, table_aa_bb 1)
   \<and> put_all 0 (HashMap_default 0 1 length_hash) [(''aa'', 9), (''bb'', 2)]
     = Inr (2, table_aa_bb 9)
   \<and> index_const (table_aa_bb 1) ''aa'' = Inr 1
   \<and> index_const (table_aa_bb 9) ''aa'' = Inr 9
   \<and> operator_eq False (table_aa_bb 1) (table_aa_bb 9) = Inr True"
  by (simp add: table_ops operator_eq_def table_aa_bb_def)

text \<open>
  C7 (every node is in the bin \<open>hash_compress\<close> of its key, also right after a \<open>put\<close>
  that resized): \<open>put("a", 1)\<close> and \<open>put("b", 2)\<close> on a default-constructed table double
  the bins during the second call. That call computed the bin index 0 of \<open>"b"\<close> before
  the resize and uses it after: the node of \<open>"b"\<close> is the head of bin 0, and
  \<open>hash_compress\<close> of \<open>"b"\<close> is 1.
\<close>

theorem put_after_resize_uses_old_index:
  "put_all 0 (HashMap_default 0 1 length_hash) [(''a'', 1), (''b'', 2)] = Inr (2, table_a_b)
   \<and> find_key table_a_b ''b'' = Some (0, 0)
   \<and> hash_compress table_a_b ''b'' = 1"
  by (simp add: table_ops table_a_b_def)

text \<open>
  C8 (for a key that is not in the table, \<open>has_key\<close> is false and the \<open>const\<close>
  \<open>operator []\<close> fails with \<open>KeyError\<close>): on a freshly constructed table \<open>has_key\<close> of the
  empty string is false, and \<open>operator []\<close> returns the value of the trailer node.
\<close>

theorem index_absent_empty_key_no_KeyError:
  "\<not> has_key (HashMap_default (0::int) 1 length_hash) ''''
   \<and> index_const (HashMap_default (0::int) 1 length_hash) '''' = Inr 0"
  by (simp add: table_ops)

text \<open>
  C9 (the bins double when \<open>used / bins\<close>, as a fraction, exceeds \<open>load_threshold\<close>): a
  table with 4 bins and threshold 0.5 holds two keys; the \<open>put\<close> of a third key makes
  \<open>used\<close> 3, and 3/4 exceeds 0.5, but the quotient of the two \<open>int\<close> values is 0 and
  the bins stay 4.
\<close>

theorem load_check_truncates:
  "put_all 0 (HashMap_bins 0 4 (1 / 2) length_hash) [(''a'', 1), (''bb'', 2)]
     = Inr (2, table_half)
   \<and> \<not> has_key table_half ''ccc''
   \<and> map_sum id (\<lambda>r. (fst r, used (snd r), bins (snd r))) (put 0 table_half ''ccc'' 3)
      = Inr (3, 3, 4)
   \<and> \<not> (3 / 4 \<le> load_threshold table_half)"
  by (simp add: table_ops table_half_def)

section \<open>The modification count and the lookup of a present key\<close>

lemma wrap32_range [simp]: "int32 (wrap32 x)"
  by (simp add: wrap32_def int32_def)

lemma wrap32_id: "int32 x \<Longrightarrow> wrap32 x = x"
  by (simp add: wrap32_def int32_def)

lemma wrap32_succ_neq [simp]: "wrap32 (m + 1) \<noteq> m"
proof
  assume "wrap32 (m + 1) = m"
  then have "(m + 1 + 2147483648) mod 4294967296 - 2147483648 = m"
    by (simp only: wrap32_def)
  then have "(m + 1 + 2147483648) mod 4294967296 = m + 2147483648"
    by linarith
  then have eq: "(m + 2147483649) mod 4294967296 = m + 2147483648"
    by (simp add: add.assoc)
  have "0 \<le> (m + 2147483649) mod 4294967296"
    and "(m + 2147483649) mod 4294967296 < 4294967296"
    by simp_all
  with eq have r: "0 \<le> m + 2147483648" "m + 2147483648 < 4294967296"
    by simp_all
  show False
  proof (cases "m + 2147483649 < 4294967296")
    case True
    with r have "(m + 2147483649) mod 4294967296 = m + 2147483649"
      by (intro mod_pos_pos_trivial) simp_all
    with eq show False by simp
  next
    case False
    with r have "m = 2147483647" by simp
    with eq show False by simp
  qed
qed

lemma wrap32_succ_neq_sym [simp]: "m \<noteq> wrap32 (m + 1)"
  by (rule not_sym) (rule wrap32_succ_neq)

lemma mod_count_insert_front:
  "insert_front t e = Inr t' \<Longrightarrow> mod_count t' = mod_count t"
  by (auto simp: insert_front_def split: if_splits)

lemma mod_count_rehouse_chain:
  "rehouse_chain t c = Inr t' \<Longrightarrow> mod_count t' = mod_count t"
  by (induction c arbitrary: t) (auto split: sum.splits dest: mod_count_insert_front)

lemma mod_count_rehouse_bins:
  "rehouse_bins t cs = Inr t' \<Longrightarrow> mod_count t' = mod_count t"
  by (induction cs arbitrary: t) (auto split: sum.splits dest: mod_count_rehouse_chain)

lemma mod_count_ensure_load_threshold:
  "ensure_load_threshold dv t new_used = Inr t' \<Longrightarrow> mod_count t' = mod_count t"
  by (auto simp: ensure_load_threshold_def Let_def split: if_splits
      dest: mod_count_rehouse_bins)

lemma put_new_key:
  assumes "\<not> has_key t key" and "put dv t key v = Inr (r, t')"
  shows "mod_count t' = wrap32 (mod_count t + 1)"
  using assms
  by (auto simp: put_def Let_def split: if_splits sum.splits
      dest: mod_count_ensure_load_threshold)

lemma erase_mod_count:
  assumes "erase t key = Inr (r, t')"
  shows "mod_count t' = wrap32 (mod_count t + 1)"
  using assms by (auto simp: erase_def split: option.splits)

lemma clear_mod_count [simp]: "mod_count (clear t) = wrap32 (mod_count t + 1)"
  by (simp add: clear_def)

lemma has_key_chain_find: "has_key_chain c key \<Longrightarrow> find_key_chain c key \<noteq> None"
  by (induction c) (auto split: if_splits)

lemma has_key_bins_find: "has_key_bins cs key \<Longrightarrow> find_key_bins cs i key \<noteq> None"
  by (induction cs arbitrary: i) (auto split: if_splits option.splits dest: has_key_chain_find)

lemma find_key_chain_node:
  "find_key_chain c key = Some p \<Longrightarrow> \<exists>n. node_at c p = Some n \<and> fst (node_value n) = key"
  by (induction c arbitrary: p) (auto split: if_splits)

lemma find_key_bins_node:
  "find_key_bins cs i key = Some q \<Longrightarrow>
     i \<le> fst q \<and> fst q - i < length cs \<and>
     (\<exists>n. node_at (cs ! (fst q - i)) (snd q) = Some n \<and> fst (node_value n) = key)"
proof (induction cs arbitrary: i)
  case Nil
  then show ?case by simp
next
  case (Cons c cs)
  show ?case
  proof (cases "find_key_chain c key")
    case None
    with Cons.prems have "find_key_bins cs (Suc i) key = Some q" by simp
    from Cons.IH [OF this] show ?thesis
      by (auto simp: Suc_diff_le)
  next
    case (Some p)
    with Cons.prems have "q = (i, p)" by simp
    with Some show ?thesis using find_key_chain_node [of c key p] by simp
  qed
qed

lemma find_key_deref:
  assumes "find_key t key = Some q"
  shows "\<exists>n. deref t q = Some n \<and> fst (node_value n) = key"
proof -
  from assms have "find_key_bins (bin_array t) 0 key = Some q" by (simp add: find_key_def)
  from find_key_bins_node [OF this]
  obtain n where len: "fst q < length (bin_array t)"
    and n: "node_at (bin_array t ! fst q) (snd q) = Some n" "fst (node_value n) = key"
    by auto
  from len have "fst q < length (map_ht t)" "bin_array t ! fst q = map_ht t ! fst q"
    by (simp_all add: bin_array_def)
  with n show ?thesis by (simp add: deref_def)
qed

lemma put_present_key:
  assumes "has_key t key" and "bins t \<noteq> 0"
  shows "\<exists>q n. find_key t key = Some q \<and> deref t q = Some n \<and>
           put dv t key v = Inr (snd (node_value n), store_second t q v)"
proof -
  from assms have "find_key t key \<noteq> None"
    by (simp add: has_key_def find_key_def has_key_bins_find)
  then obtain q where q: "find_key t key = Some q" by auto
  from find_key_deref [OF q] obtain n where "deref t q = Some n" by auto
  with q assms show ?thesis by (simp add: put_def Let_def)
qed

text \<open>A put of a new key that does not resize returns when the hash value is not negative.\<close>

lemma cpp_mod_bounds:
  assumes "0 \<le> a" and "1 \<le> b"
  shows "0 \<le> cpp_mod a b" and "cpp_mod a b < b"
  using assms by (simp_all add: cpp_mod_def sgn_if)

lemma put_new_key_returns:
  assumes "wf t" and "\<not> has_key t key" and "0 \<le> cpp_abs (hash t key)"
    and "real_of_int (cpp_div (wrap32 (used t + 1)) (bins t)) \<le> load_threshold t"
  shows "\<exists>r t'. put dv t key v = Inr (r, t')"
proof -
  from assms(1) have b: "1 \<le> bins t" "length (map_ht t) = nat (bins t)"
    by (simp_all add: wf_def)
  from cpp_mod_bounds [OF assms(3) b(1)] b
  have "in_bounds (hash_compress t key) (map_ht t)"
    by (simp add: in_bounds_def hash_compress_def)
  with assms(2,4) b show ?thesis
    by (simp add: put_def Let_def ensure_load_threshold_def)
qed

section \<open>Cursor movement depends on keys only\<close>

lemma keys_of_not_Nil [simp]: "keys_of c \<noteq> []" "[] \<noteq> keys_of c"
  by (cases c; simp)+

lemma keys_of_set_second [simp]: "keys_of (set_second c p v) = keys_of c"
  by (induction c p v rule: set_second.induct) simp_all

lemma scan_chain_keys:
  "keys_of c = keys_of c' \<Longrightarrow> scan_chain c k = scan_chain c' k"
proof (induction c arbitrary: c' k)
  case (Trailer e)
  then show ?case by (cases c') simp_all
next
  case (Link e n)
  then show ?case by (cases c') auto
qed

lemma scan_bins_keys:
  "map keys_of cs = map keys_of cs' \<Longrightarrow> scan_bins cs i = scan_bins cs' i"
proof (induction cs arbitrary: cs' i)
  case Nil
  then show ?case by simp
next
  case (Cons c cs)
  then obtain c' ds where cs': "cs' = c' # ds" and k: "keys_of c = keys_of c'"
    and m: "map keys_of cs = map keys_of ds"
    by (cases cs') auto
  show ?case
    by (simp add: cs' scan_chain_keys [OF k] Cons.IH [OF m] split: option.split)
qed

lemma node_at_keys:
  "keys_of c = keys_of c' \<Longrightarrow>
     (node_at c p = None \<and> node_at c' p = None) \<or>
     (\<exists>n n'. node_at c p = Some n \<and> node_at c' p = Some n' \<and> keys_of n = keys_of n')"
proof (induction c p arbitrary: c' rule: node_at.induct)
  case (1 c)
  then show ?case by simp
next
  case (2 e p)
  then show ?case by (cases c') simp_all
next
  case (3 e n p)
  then show ?case by (cases c') simp_all
qed

lemma node_of_keys:
  assumes "same_keys t t'"
  shows "(node_of t r = None \<and> node_of t' r = None) \<or>
     (\<exists>n n'. node_of t r = Some n \<and> node_of t' r = Some n' \<and> keys_of n = keys_of n')"
proof (cases "fst r = array_id t")
  case True
  from assms have m: "map keys_of (map_ht t') = map keys_of (map_ht t)"
    and id: "array_id t' = array_id t"
    by (simp_all add: same_keys_def array_id_def)
  from m have len: "length (map_ht t') = length (map_ht t)"
    by (rule map_eq_imp_length_eq)
  show ?thesis
  proof (cases "fst (snd r) < length (map_ht t)")
    case inside: True
    with m len have "keys_of (map_ht t ! fst (snd r)) = keys_of (map_ht t' ! fst (snd r))"
      by (metis nth_map)
    from node_at_keys [OF this, of "snd (snd r)"] True id inside len show ?thesis
      by (simp add: node_of_def array_of_def)
  next
    case False
    with True id len show ?thesis by (simp add: node_of_def array_of_def)
  qed
next
  case False
  with assms have "array_of t' (fst r) = array_of t (fst r)"
    by (simp add: same_keys_def array_of_def array_id_def)
  then have "node_of t' r = node_of t r" by (simp add: node_of_def)
  then show ?thesis by (cases "node_of t r") auto
qed

lemma scan_from_keys:
  assumes "same_keys t t'"
  shows "scan_from t' i = scan_from t i"
proof -
  from assms have "map keys_of (drop i (bin_array t')) = map keys_of (drop i (bin_array t))"
    by (simp add: same_keys_def bin_array_def drop_map [symmetric] take_map [symmetric])
  from scan_bins_keys [OF this] assms show ?thesis
    by (simp add: scan_from_def same_keys_def array_id_def split: option.split)
qed

lemma keys_of_eq_cases:
  assumes "keys_of n = keys_of n'"
  shows "(\<exists>e e'. n = Trailer e \<and> n' = Trailer e' \<and> fst e = fst e') \<or>
         (\<exists>e m e' m'. n = Link e m \<and> n' = Link e' m' \<and> fst e = fst e' \<and> keys_of m = keys_of m')"
  using assms by (cases n; cases n') simp_all

lemma first_key_keys: "keys_of m = keys_of m' \<Longrightarrow> fst (node_value m) = fst (node_value m')"
  by (cases m; cases m') simp_all

lemma advance_cursors_keys:
  assumes "same_keys t t'"
  shows "advance_cursors t' it = advance_cursors t it"
proof (cases "snd (current it)")
  case None
  then show ?thesis by (simp add: advance_cursors_def)
next
  case (Some r)
  note scan = scan_from_keys [OF assms]
  from node_of_keys [OF assms, of r] show ?thesis
  proof (elim disjE exE conjE)
    assume "node_of t r = None" "node_of t' r = None"
    with Some show ?thesis by (simp add: advance_cursors_def)
  next
    fix n n'
    assume d: "node_of t r = Some n" "node_of t' r = Some n'" and k: "keys_of n = keys_of n'"
    from keys_of_eq_cases [OF k] show ?thesis
    proof (elim disjE exE conjE)
      fix e e' assume "n = Trailer e" "n' = Trailer e'"
      with d Some show ?thesis by (simp add: advance_cursors_def)
    next
      fix e m e' m'
      assume "n = Link e m" "n' = Link e' m'" and km: "keys_of m = keys_of m'"
      with d Some first_key_keys [OF km] scan show ?thesis
        by (simp add: advance_cursors_def)
    qed
  qed
qed

lemma map_update_same:
  assumes "f y = f (xs ! i)"
  shows "map f (xs[i := y]) = map f xs"
proof (cases "i < length xs")
  case True
  with assms have "(map f xs)[i := f y] = map f xs"
    by (simp add: list_update_same_conv)
  then show ?thesis by (simp add: map_update)
next
  case False
  then show ?thesis by (simp add: list_update_beyond)
qed

lemma same_keys_store_second: "same_keys t (store_second t q v)"
  by (simp add: same_keys_def store_second_def map_update_same)

lemma advance_cursors_not_CME: "advance_cursors t it \<noteq> Inl ConcurrentModificationError"
  by (simp add: advance_cursors_def split: option.splits LN.splits)

lemma erase_not_CME: "erase t key \<noteq> Inl ConcurrentModificationError"
  by (simp add: erase_def split: option.splits)

lemma erase_it_synced:
  assumes "expected_mod_count it = mod_count t"
  shows "erase_it t it \<noteq> Inl ConcurrentModificationError"
  using assms advance_cursors_not_CME [of t "it\<lparr>can_erase := False\<rparr>"] erase_not_CME [of t]
  by (auto simp: erase_it_def split: option.splits LN.splits sum.splits)

section \<open>The concurrent-modification check\<close>

lemma begin_empty_exhausted:
  assumes "empty t"
  shows "current (begin_it c0 t) = (- 1, None)"
  using assms by (simp add: begin_it_def Iterator_ctor_def)

lemma end_exhausted: "current (end_it c0 t) = (- 1, None)"
  by (simp add: end_it_def Iterator_ctor_def)

lemma stale_iterator:
  assumes "expected_mod_count it \<noteq> mod_count t"
  shows "checked_operations_raise_CME t it same_map rhs"
  using assms
  by (simp add: checked_operations_raise_CME_def pre_increment_def post_increment_def
      dereference_def arrow_def erase_it_def eq_it_def neq_it_def)

lemma str_it_returns: "unchecked_operations_return out_T t it"
  by (simp add: unchecked_operations_return_def str_it_def insertion_it_def)

lemma synced_iterator:
  assumes "expected_mod_count it = mod_count t"
  shows "no_operation_raises_CME out_T t it same_map rhs"
proof -
  have "pre_increment t it \<noteq> Inl ConcurrentModificationError"
    using assms advance_cursors_not_CME [of t it] by (simp add: pre_increment_def)
  moreover have "post_increment t it \<noteq> Inl ConcurrentModificationError"
    using assms advance_cursors_not_CME [of t it]
    by (auto simp: post_increment_def split: sum.splits)
  moreover have "dereference t it \<noteq> Inl ConcurrentModificationError"
    "arrow t it \<noteq> Inl ConcurrentModificationError"
    using assms by (simp_all add: dereference_def arrow_def split: option.splits)
  moreover have "eq_it same_map t it rhs \<noteq> Inl ConcurrentModificationError"
    "neq_it same_map t it rhs \<noteq> Inl ConcurrentModificationError"
    using assms by (simp_all add: eq_it_def neq_it_def)
  moreover have "str_it out_T t it \<noteq> Inl ConcurrentModificationError"
    "insertion_it out_T t it \<noteq> Inl ConcurrentModificationError"
    by (simp_all add: str_it_def insertion_it_def)
  ultimately show ?thesis
    using erase_it_synced [OF assms] by (simp add: no_operation_raises_CME_def)
qed

lemma pre_increment_keys:
  assumes "same_keys t t'" and "mod_count t' = mod_count t"
  shows "pre_increment t' it = pre_increment t it"
  using assms by (simp add: pre_increment_def advance_cursors_keys)

lemma mod_count_store_second [simp]: "mod_count (store_second t q v) = mod_count t"
  by (simp add: store_second_def)

text \<open>
  C5, as the claim states it (after a structural mutation of the table that was not made
  through the iterator, every operation of the iterator fails with
  \<open>ConcurrentModificationError\<close>): the iterator \<open>begin()\<close> of a freshly constructed
  table is stale after \<open>put("a", 1)\<close>, and \<open>operator *\<close> raises
  \<open>ConcurrentModificationError\<close>, but \<open>Iterator::str\<close> makes no comparison of
  \<open>mod_count\<close> and returns its rendering.
\<close>

theorem str_ignores_structural_mutation:
  "\<not> has_key table_new ''a''
   \<and> put 0 table_new ''a'' 1 = Inr (1, table_a)
   \<and> expected_mod_count (begin_it (0, None) table_new) = mod_count table_new
   \<and> dereference table_a (begin_it (0, None) table_new) = Inl ConcurrentModificationError
   \<and> str_it out_int table_a (begin_it (0, None) table_new)
       = Inr ''a->1(expected_mod_count=0,can_erase=1)''"
  by (simp add: table_ops iterator_ops table_new_def table_a_def str_it_def str_ht_def
      out_int_def)

text \<open>
  C5, amended: let an iterator hold the current \<open>mod_count\<close> of a well-formed table as
  its \<open>expected_mod_count\<close>, as it does after \<open>begin()\<close>, \<open>end()\<close> or its own \<open>erase\<close>.
  After a \<open>put\<close> of a key that \<open>has_key\<close> does not find, after an \<open>erase\<close>, when these
  return (\<open>put_new_key_returns\<close> has conditions under which the \<open>put\<close> does), and
  after \<open>clear\<close>, both forms of \<open>operator ++\<close>, \<open>operator *\<close>,
  \<open>operator ->\<close>, \<open>erase\<close>, \<open>operator ==\<close> and \<open>operator !=\<close> of the iterator raise
  \<open>ConcurrentModificationError\<close>, while \<open>Iterator::str\<close> and \<open>operator <<\<close> return a
  rendering. A \<open>put\<close> of a key that \<open>has_key\<close> finds returns, leaves \<open>mod_count\<close> as it
  is, no operation of the iterator raises \<open>ConcurrentModificationError\<close>, and
  \<open>operator ++\<close> does what it does on the table before the \<open>put\<close>.
\<close>

theorem structural_mutation_invalidates_iterator:
  assumes wf: "wf t"
    and sync: "expected_mod_count it = mod_count t"
  shows "(\<forall>r t'. \<not> has_key t key \<longrightarrow> put dv t key v = Inr (r, t') \<longrightarrow>
            checked_operations_raise_CME t' it same_map rhs
            \<and> unchecked_operations_return out_T t' it)
         \<and> (\<forall>r t'. erase t key = Inr (r, t') \<longrightarrow>
            checked_operations_raise_CME t' it same_map rhs
            \<and> unchecked_operations_return out_T t' it)
         \<and> checked_operations_raise_CME (clear t) it same_map rhs
         \<and> unchecked_operations_return out_T (clear t) it
         \<and> (has_key t key \<longrightarrow>
            (\<exists>r t'. put dv t key v = Inr (r, t')
               \<and> mod_count t' = mod_count t
               \<and> no_operation_raises_CME out_T t' it same_map rhs
               \<and> pre_increment t' it = pre_increment t it))"
proof (intro conjI impI allI)
  fix r t'
  assume "\<not> has_key t key" and "put dv t key v = Inr (r, t')"
  from put_new_key [OF this] sync have "expected_mod_count it \<noteq> mod_count t'" by simp
  then show "checked_operations_raise_CME t' it same_map rhs" by (rule stale_iterator)
next
  fix r t'
  assume "erase t key = Inr (r, t')"
  from erase_mod_count [OF this] sync have "expected_mod_count it \<noteq> mod_count t'" by simp
  then show "checked_operations_raise_CME t' it same_map rhs" by (rule stale_iterator)
next
  from sync have "expected_mod_count it \<noteq> mod_count (clear t)" by simp
  then show "checked_operations_raise_CME (clear t) it same_map rhs" by (rule stale_iterator)
next
  assume k: "has_key t key"
  from wf have "bins t \<noteq> 0" by (simp add: wf_def)
  from put_present_key [OF k this, of dv v]
  obtain q n where p: "put dv t key v = Inr (snd (node_value n), store_second t q v)"
    by blast
  have "no_operation_raises_CME out_T (store_second t q v) it same_map rhs"
    using sync by (intro synced_iterator) simp
  moreover have "pre_increment (store_second t q v) it = pre_increment t it"
    by (intro pre_increment_keys same_keys_store_second) simp
  ultimately show "\<exists>r t'. put dv t key v = Inr (r, t') \<and> mod_count t' = mod_count t
      \<and> no_operation_raises_CME out_T t' it same_map rhs
      \<and> pre_increment t' it = pre_increment t it"
    using p by auto
qed (rule str_it_returns)+

theorem structural_mutation_invalidates_iterator_witness:
  "wf table_new
   \<and> wf (table_aa_bb 1)
   \<and> expected_mod_count (begin_it (0, None) table_new) = mod_count table_new
   \<and> \<not> has_key table_new ''a''
   \<and> put 0 table_new ''a'' 1 = Inr (1, table_a)
   \<and> checked_operations_raise_CME table_a (begin_it (0, None) table_new) True
         (end_it (0, None) table_new)
   \<and> unchecked_operations_return out_int table_a (begin_it (0, None) table_new)
   \<and> expected_mod_count (begin_it (0, None) (table_aa_bb 1)) = mod_count (table_aa_bb 1)
   \<and> has_key (table_aa_bb 1) ''aa''
   \<and> (\<exists>r t'. erase (table_aa_bb 1) ''aa'' = Inr (r, t')
         \<and> checked_operations_raise_CME t' (begin_it (0, None) (table_aa_bb 1)) True
             (end_it (0, None) (table_aa_bb 1))
         \<and> unchecked_operations_return out_int t' (begin_it (0, None) (table_aa_bb 1)))
   \<and> checked_operations_raise_CME (clear (table_aa_bb 1))
         (begin_it (0, None) (table_aa_bb 1)) True (end_it (0, None) (table_aa_bb 1))
   \<and> (\<exists>r t'. put 0 (table_aa_bb 1) ''aa'' 5 = Inr (r, t')
         \<and> mod_count t' = mod_count (table_aa_bb 1)
         \<and> no_operation_raises_CME out_int t' (begin_it (0, None) (table_aa_bb 1)) True
             (end_it (0, None) (table_aa_bb 1))
         \<and> pre_increment t' (begin_it (0, None) (table_aa_bb 1))
             = pre_increment (table_aa_bb 1) (begin_it (0, None) (table_aa_bb 1)))"
proof -
  have w0: "wf table_new"
    by (simp add: wf_def int32_def table_new_def HashMap_default_def)
  have w1: "wf (table_aa_bb 1)"
    by (simp add: wf_def int32_def table_aa_bb_def)
  have s0: "expected_mod_count (begin_it (0, None) table_new) = mod_count table_new"
    by (simp add: begin_it_def Iterator_ctor_def)
  have s1: "expected_mod_count (begin_it (0, None) (table_aa_bb 1)) = mod_count (table_aa_bb 1)"
    by (simp add: begin_it_def Iterator_ctor_def)
  have new: "\<not> has_key table_new ''a''"
    by (simp add: table_ops table_new_def)
  have p: "put 0 table_new ''a'' 1 = Inr (1, table_a)"
    by (simp add: table_ops table_new_def table_a_def)
  have old: "has_key (table_aa_bb 1) ''aa''"
    by (simp add: table_ops table_aa_bb_def)
  have er: "\<exists>r t'. erase (table_aa_bb 1) ''aa'' = Inr (r, t')"
    by (simp add: table_ops table_aa_bb_def)
  show ?thesis
    using w0 w1 s0 s1 new p old er
      structural_mutation_invalidates_iterator [OF w0 s0, where key = "''a''" and dv = 0
        and v = 1 and same_map = True and rhs = "end_it (0, None) table_new"
        and out_T = out_int]
      structural_mutation_invalidates_iterator [OF w1 s1, where key = "''aa''" and dv = 0
        and v = 5 and same_map = True and rhs = "end_it (0, None) (table_aa_bb 1)"
        and out_T = out_int]
    by blast
qed

section \<open>Copy assignment\<close>

lemma copy_loop_prefix:
  assumes "k \<le> length m" and "k \<le> length ht"
  shows "foldl (\<lambda>m i. m[i := f (ht ! i)]) m [0..<k] = map f (take k ht) @ drop k m"
  using assms
proof (induction k)
  case 0
  then show ?case by simp
next
  case (Suc k)
  then have IH: "foldl (\<lambda>m i. m[i := f (ht ! i)]) m [0..<k] = map f (take k ht) @ drop k m"
    by simp
  from Suc.prems have k: "k < length m" "k < length ht" by simp_all
  have "(map f (take k ht) @ drop k m)[k := f (ht ! k)]
          = map f (take k ht) @ (drop k m)[0 := f (ht ! k)]"
    using k by (simp add: list_update_append)
  also have "(drop k m)[0 := f (ht ! k)] = f (ht ! k) # drop (Suc k) m"
    using k by (simp add: Cons_nth_drop_Suc [symmetric])
  finally show ?case
    using k by (simp add: IH take_Suc_conv_app_nth)
qed

lemma copy_hash_table_map:
  assumes "length (map_ht t) = nat b" and "nat b \<le> length ht"
  shows "map_ht (copy_hash_table dv t ht b) = map (copy_list dv) (take (nat b) ht)"
  using copy_loop_prefix [of "nat b" "map_ht t" ht "copy_list dv"] assms
  by (simp add: copy_hash_table_def)

lemma entries_copy_list [simp]: "entries (copy_list dv c) = entries c"
  by (induction c) simp_all

lemma scan_chain_copy_list [simp]: "scan_chain (copy_list dv c) p = scan_chain c p"
  by (induction c arbitrary: p) simp_all

lemma scan_bins_copy_list [simp]: "scan_bins (map (copy_list dv) cs) i = scan_bins cs i"
  by (induction cs arbitrary: i) (simp_all split: option.split)

lemma assign_self [simp]: "assign True dv t rhs = t"
  by (simp add: assign_def)

lemma assign_fields:
  "mod_count (assign same_object dv t rhs) = mod_count t"
  "bins (assign False dv t rhs) = bins rhs"
  "used (assign False dv t rhs) = used rhs"
  "load_threshold (assign False dv t rhs) = load_threshold rhs"
  "hash (assign False dv t rhs) = hash rhs"
  "leaked (assign False dv t rhs) = leaked t @ [map_ht t]"
  by (simp_all add: assign_def copy_hash_table_def Let_def)

lemma assign_map:
  assumes "wf rhs"
  shows "map_ht (assign False dv t rhs) = map (copy_list dv) (map_ht rhs)"
  using assms by (simp add: assign_def Let_def wf_def copy_hash_table_map)









section \<open>Well-formedness is established and preserved\<close>

lemma int32_0 [simp]: "int32 0"
  by (simp add: int32_def)

lemma wf_HashMap_default: "wf (HashMap_default dv thr h)"
  by (simp add: wf_def int32_def HashMap_default_def)

lemma wf_HashMap_bins: "1 \<le> b \<Longrightarrow> int32 b \<Longrightarrow> wf (HashMap_bins dv b thr h)"
  by (simp add: wf_def int32_def HashMap_bins_def)

lemma insert_front_shape: "insert_front t e = Inr t' \<Longrightarrow> same_shape t t'"
  by (auto simp: insert_front_def same_shape_def split: if_splits)

lemma same_shape_trans: "same_shape t t1 \<Longrightarrow> same_shape t1 t2 \<Longrightarrow> same_shape t t2"
  by (simp add: same_shape_def)

lemma rehouse_chain_shape: "rehouse_chain t c = Inr t' \<Longrightarrow> same_shape t t'"
proof (induction c arbitrary: t)
  case (Trailer e)
  then show ?case by (simp add: insert_front_shape)
next
  case (Link e n)
  then show ?case
    by (auto split: sum.splits intro: same_shape_trans dest: insert_front_shape)
qed

lemma rehouse_bins_shape: "rehouse_bins t cs = Inr t' \<Longrightarrow> same_shape t t'"
proof (induction cs arbitrary: t)
  case Nil
  then show ?case by (simp add: same_shape_def)
next
  case (Cons c cs)
  then show ?case
    by (auto split: sum.splits intro: same_shape_trans dest: rehouse_chain_shape)
qed

lemma wf_same_shape: "wf t \<Longrightarrow> same_shape t t' \<Longrightarrow> wf t'"
  by (simp add: wf_def same_shape_def)

lemma wf_ensure_load_threshold:
  assumes "wf t" and "ensure_load_threshold dv t new_used = Inr t'"
  shows "wf t'"
proof (cases "real_of_int (cpp_div new_used (bins t)) \<le> load_threshold t")
  case True
  with assms show ?thesis by (simp add: ensure_load_threshold_def split: if_splits)
next
  case False
  define t2 where "t2 = t\<lparr>bins := wrap32 (bins t * 2),
      map_ht := replicate (nat (wrap32 (bins t * 2))) (Trailer ('''', dv))\<rparr>"
  from False assms(2) have pos: "\<not> wrap32 (bins t * 2) < 0"
    and r: "rehouse_bins t2 (take (nat (cpp_div (wrap32 (bins t * 2)) 2)) (map_ht t)) = Inr t'"
    by (auto simp: ensure_load_threshold_def Let_def t2_def split: if_splits)
  from assms(1) have b: "1 \<le> bins t" "bins t \<le> 2147483647"
    by (simp_all add: wf_def int32_def)
  have "1 \<le> wrap32 (bins t * 2)"
  proof (cases "bins t * 2 \<le> 2147483647")
    case True
    with b have "wrap32 (bins t * 2) = bins t * 2"
      by (intro wrap32_id) (simp add: int32_def)
    with b show ?thesis by simp
  next
    case False
    with b have "(bins t * 2 + 2147483648) mod 4294967296 = bins t * 2 - 2147483648"
      by (intro int_mod_pos_eq [where q = 1]) simp_all
    with False pos b show ?thesis by (simp add: wrap32_def)
  qed
  with assms(1) have "wf t2"
    by (simp add: wf_def t2_def)
  then show ?thesis
    using rehouse_bins_shape [OF r] by (rule wf_same_shape)
qed

lemma wf_used_update: "wf t \<Longrightarrow> wf (t\<lparr>used := wrap32 u\<rparr>)"
  by (simp add: wf_def)

lemma wf_put:
  assumes "wf t" and "put dv t key v = Inr (r, t')"
  shows "wf t'"
proof (cases "has_key t key")
  case True
  from assms(1) have "bins t \<noteq> 0" by (simp add: wf_def)
  from put_present_key [OF True this, of dv v] assms(2)
  obtain q where "t' = store_second t q v" by auto
  with assms(1) show ?thesis by (simp add: wf_def store_second_def)
next
  case False
  with assms(2) obtain t1 where
    e: "ensure_load_threshold dv (t\<lparr>used := wrap32 (used t + 1)\<rparr>) (wrap32 (used t + 1)) = Inr t1"
    and t': "t' = t1\<lparr>map_ht := (map_ht t1)[nat (hash_compress t key) :=
                    Link (key, v) (map_ht t1 ! nat (hash_compress t key))],
                  mod_count := wrap32 (mod_count t1 + 1)\<rparr>"
    by (auto simp: put_def Let_def split: if_splits sum.splits)
  from assms(1) have "wf (t\<lparr>used := wrap32 (used t + 1)\<rparr>)"
    by (rule wf_used_update)
  from wf_ensure_load_threshold [OF this e] show ?thesis
    by (simp add: t' wf_def)
qed

lemma wf_erase:
  assumes "wf t" and "erase t key = Inr (r, t')"
  shows "wf t'"
  using assms by (auto simp: erase_def wf_def split: option.splits)

lemma wf_clear: "wf t \<Longrightarrow> wf (clear t)"
  by (simp add: wf_def clear_def bin_array_def)

lemma wf_assign:
  assumes "wf t" and "wf rhs"
  shows "wf (assign same_object dv t rhs)"
proof (cases same_object)
  case True
  with assms show ?thesis by (simp add: assign_def)
next
  case False
  with assms show ?thesis
    by (simp add: wf_def assign_fields assign_map)
qed

section \<open>Trailer nodes and keys other than the empty string\<close>

text \<open>
  The trailer nodes of a constructed table hold the empty key, and the commands keep
  this. On such a table \<open>find_key\<close> and \<open>has_key\<close> agree on every key other than the
  empty string, so the \<open>const\<close> \<open>operator []\<close> and \<open>erase\<close> raise \<open>KeyError\<close> for
  such a key when it is absent. \<open>resize_condition\<close> is the test that
  \<open>ensure_load_threshold\<close> applies.
\<close>

lemma find_key_chain_absent:
  assumes "trailer_key c = ''''" and "key \<noteq> ''''" and "\<not> has_key_chain c key"
  shows "find_key_chain c key = None"
  using assms by (induction c) (auto split: if_splits)

lemma find_key_bins_absent:
  assumes "list_all (\<lambda>c. trailer_key c = '''') cs" and "key \<noteq> ''''"
    and "\<not> has_key_bins cs key"
  shows "find_key_bins cs i key = None"
  using assms
  by (induction cs arbitrary: i) (auto simp: find_key_chain_absent split: if_splits)

lemma find_key_absent:
  assumes "trailers_empty t" and "key \<noteq> ''''" and "\<not> has_key t key"
  shows "find_key t key = None"
proof -
  from assms(1) have "list_all (\<lambda>c. trailer_key c = '''') (bin_array t)"
    by (auto simp: trailers_empty_def bin_array_def list_all_iff dest: in_set_takeD)
  with assms(2,3) show ?thesis
    by (simp add: find_key_def has_key_def find_key_bins_absent)
qed

lemma absent_key_KeyError:
  assumes "trailers_empty t" and "key \<noteq> ''''" and "\<not> has_key t key"
  shows "index_const t key = Inl KeyError" and "erase t key = Inl KeyError"
  using find_key_absent [OF assms] by (simp_all add: index_const_def erase_def)

lemma resize_condition:
  assumes "ensure_load_threshold dv t new_used = Inr t'"
  shows "bins t' =
     (if real_of_int (cpp_div new_used (bins t)) \<le> load_threshold t then bins t
      else wrap32 (bins t * 2))"
proof (cases "real_of_int (cpp_div new_used (bins t)) \<le> load_threshold t")
  case True
  with assms show ?thesis by (simp add: ensure_load_threshold_def split: if_splits)
next
  case False
  define t2 where "t2 = t\<lparr>bins := wrap32 (bins t * 2),
      map_ht := replicate (nat (wrap32 (bins t * 2))) (Trailer ('''', dv))\<rparr>"
  from False assms obtain ht where "rehouse_bins t2 ht = Inr t'"
    by (auto simp: ensure_load_threshold_def Let_def t2_def split: if_splits)
  from rehouse_bins_shape [OF this] False show ?thesis
    by (simp add: same_shape_def t2_def)
qed

lemma trailers_empty_ctor:
  "trailers_empty (HashMap_default dv thr h)" "trailers_empty (HashMap_bins dv b thr h)"
  by (simp_all add: trailers_empty_def HashMap_default_def HashMap_bins_def list_all_iff)

lemma trailer_key_set_second [simp]: "trailer_key (set_second c p v) = trailer_key c"
  by (induction c p v rule: set_second.induct) simp_all

lemma trailer_key_unlink: "unlink c p = Some c' \<Longrightarrow> trailer_key c' = trailer_key c"
  by (induction c p arbitrary: c' rule: unlink.induct) auto

lemma trailer_key_clear_chain [simp]: "trailer_key (clear_chain c) = trailer_key c"
  by (induction c) simp_all

lemma trailer_key_copy_list [simp]: "trailer_key (copy_list dv c) = ''''"
  by (induction c) simp_all

lemma list_all_update:
  assumes "list_all P xs" and "P y"
  shows "list_all P (xs[i := y])"
  using assms by (auto simp: list_all_iff dest: set_update_subset_insert [THEN subsetD])

lemma trailers_empty_nth:
  assumes "trailers_empty t" and "i < length (map_ht t)"
  shows "trailer_key (map_ht t ! i) = ''''"
  using assms by (simp add: trailers_empty_def list_all_length)

lemma trailers_empty_update:
  assumes "trailers_empty t" and "i < length (map_ht t) \<Longrightarrow> trailer_key c = ''''"
  shows "trailers_empty (t\<lparr>map_ht := (map_ht t)[i := c]\<rparr>)"
proof (cases "i < length (map_ht t)")
  case True
  with assms show ?thesis by (simp add: trailers_empty_def list_all_update)
next
  case False
  with assms(1) show ?thesis by (simp add: trailers_empty_def list_update_beyond)
qed

lemma trailers_empty_fields [simp]:
  "trailers_empty (t\<lparr>used := u\<rparr>) = trailers_empty t"
  "trailers_empty (t\<lparr>mod_count := m\<rparr>) = trailers_empty t"
  by (simp_all add: trailers_empty_def)

lemma trailers_empty_insert_front:
  assumes "trailers_empty t" and "insert_front t e = Inr t'"
  shows "trailers_empty t'"
proof -
  from assms(2)
  have t': "t' = t\<lparr>map_ht := (map_ht t)[nat (hash_compress t (fst e)) :=
              Link (fst e, snd e) (map_ht t ! nat (hash_compress t (fst e)))]\<rparr>"
    by (auto simp: insert_front_def split: if_splits)
  show ?thesis
    unfolding t' using assms(1)
    by (intro trailers_empty_update) (simp_all add: trailers_empty_nth)
qed

lemma trailers_empty_rehouse_chain:
  "trailers_empty t \<Longrightarrow> rehouse_chain t c = Inr t' \<Longrightarrow> trailers_empty t'"
  by (induction c arbitrary: t)
     (auto split: sum.splits intro: trailers_empty_insert_front)

lemma trailers_empty_rehouse_bins:
  "trailers_empty t \<Longrightarrow> rehouse_bins t cs = Inr t' \<Longrightarrow> trailers_empty t'"
  by (induction cs arbitrary: t)
     (auto split: sum.splits intro: trailers_empty_rehouse_chain)

lemma trailers_empty_ensure_load_threshold:
  assumes "trailers_empty t" and "ensure_load_threshold dv t new_used = Inr t'"
  shows "trailers_empty t'"
proof (cases "real_of_int (cpp_div new_used (bins t)) \<le> load_threshold t")
  case True
  with assms show ?thesis by (simp add: ensure_load_threshold_def split: if_splits)
next
  case False
  define t2 where "t2 = t\<lparr>bins := wrap32 (bins t * 2),
      map_ht := replicate (nat (wrap32 (bins t * 2))) (Trailer ('''', dv))\<rparr>"
  from False assms(2) obtain ht where r: "rehouse_bins t2 ht = Inr t'"
    by (auto simp: ensure_load_threshold_def Let_def t2_def split: if_splits)
  have "trailers_empty t2"
    by (simp add: trailers_empty_def list_all_iff t2_def)
  from trailers_empty_rehouse_bins [OF this r] show ?thesis .
qed

lemma trailers_empty_store_second:
  assumes "trailers_empty t"
  shows "trailers_empty (store_second t q v)"
  unfolding store_second_def
  using assms by (intro trailers_empty_update) (simp_all add: trailers_empty_nth)

lemma trailers_empty_put:
  assumes "trailers_empty t" and "put dv t key v = Inr (r, t')"
  shows "trailers_empty t'"
proof (cases "has_key t key")
  case True
  with assms(2) obtain q where "t' = store_second t q v"
    by (auto simp: put_def Let_def split: if_splits option.splits)
  with assms(1) show ?thesis by (simp add: trailers_empty_store_second)
next
  case False
  with assms(2) obtain t1 i where
    e: "ensure_load_threshold dv (t\<lparr>used := wrap32 (used t + 1)\<rparr>) (wrap32 (used t + 1)) = Inr t1"
    and t': "t' = t1\<lparr>map_ht := (map_ht t1)[i := Link (key, v) (map_ht t1 ! i)],
                  mod_count := wrap32 (mod_count t1 + 1)\<rparr>"
    by (auto simp: put_def Let_def split: if_splits sum.splits)
  from assms(1) have "trailers_empty (t\<lparr>used := wrap32 (used t + 1)\<rparr>)" by simp
  from trailers_empty_ensure_load_threshold [OF this e]
  have "trailers_empty (t1\<lparr>map_ht := (map_ht t1)[i := Link (key, v) (map_ht t1 ! i)]\<rparr>)"
    by (intro trailers_empty_update) (simp_all add: trailers_empty_nth)
  then show ?thesis by (simp add: t' trailers_empty_def)
qed

lemma trailers_empty_erase:
  assumes "trailers_empty t" and "erase t key = Inr (r, t')"
  shows "trailers_empty t'"
proof -
  from assms(2) obtain q c where c: "unlink (map_ht t ! fst q) (snd q) = Some c"
    and t': "t' = t\<lparr>map_ht := (map_ht t)[fst q := c], used := wrap32 (used t - 1),
                    mod_count := wrap32 (mod_count t + 1)\<rparr>"
    by (auto simp: erase_def split: option.splits)
  have "trailers_empty (t\<lparr>map_ht := (map_ht t)[fst q := c]\<rparr>)"
    using assms(1) trailer_key_unlink [OF c]
    by (intro trailers_empty_update) (simp_all add: trailers_empty_nth)
  then show ?thesis by (simp add: t' trailers_empty_def)
qed

lemma trailers_empty_clear:
  assumes "trailers_empty t"
  shows "trailers_empty (clear t)"
proof -
  from assms have "list_all (\<lambda>c. trailer_key c = '''') (take (nat (bins t)) (map_ht t))"
    "list_all (\<lambda>c. trailer_key c = '''') (drop (nat (bins t)) (map_ht t))"
    by (auto simp: trailers_empty_def list_all_iff dest: in_set_takeD in_set_dropD)
  then show ?thesis
    by (auto simp: trailers_empty_def clear_def bin_array_def list_all_iff)
qed

lemma copy_loop_trailers:
  assumes "list_all (\<lambda>c. trailer_key c = '''') m"
  shows "list_all (\<lambda>c. trailer_key c = '''')
           (foldl (\<lambda>m i. m[i := copy_list dv (ht ! i)]) m is)"
  using assms by (induction "is" arbitrary: m) (simp_all add: list_all_update)

lemma trailers_empty_assign:
  assumes "trailers_empty t"
  shows "trailers_empty (assign same_object dv t rhs)"
proof (cases same_object)
  case True
  with assms show ?thesis by (simp add: assign_def)
next
  case False
  have "list_all (\<lambda>c. trailer_key c = '''') (replicate (nat (bins rhs)) (Trailer ('''', dv)))"
    by (simp add: list_all_iff)
  from copy_loop_trailers [OF this] False show ?thesis
    by (simp add: assign_def Let_def copy_hash_table_def trailers_empty_def)
qed

end
